theory Spec2Isabelle
  imports Main
begin

section \<open>Data model of \<open>src/content.ts\<close>\<close>

text \<open>
  The interfaces of the module become records. JavaScript strings are \<open>string\<close>
  (cells and tags are taken over the one-byte alphabet), an optional field \<open>f?: T\<close> is
  \<open>T option\<close>. The fields of \<open>VAParameter\<close> and \<open>VAFormat\<close> carry a prefix, since
  \<open>label\<close> and \<open>name\<close> are fields of \<open>VAColumn\<close> already and \<open>value\<close> is reserved:
  \<open>paramLabel\<close>, \<open>paramValue\<close> stand for \<open>label\<close>, \<open>value\<close> and \<open>formatName\<close> for
  \<open>VAFormat.name\<close>.
\<close>

datatype paramValue = Single string | Multiple "string list"

record VAParameter =
  paramLabel :: string
  paramValue :: paramValue

record VAFormat =
  formatName :: string
  width :: "int option"
  precision :: "int option"
  formatString :: string

record VAColumn =
  name :: string
  label :: string
  type :: string
  usage :: "string option"
  aggregation :: "string option"
  format :: "VAFormat option"

text \<open>
  A \<open>Date\<close> object built by \<open>new Date(s)\<close>. The constructor belongs to the host, not to the
  module: ECMAScript fixes its result for the date-only form \<open>YYYY-MM-DD\<close> (midnight UTC
  of that day) and leaves every other string to the implementation. \<open>DateUTC y m d\<close> is the
  former, \<open>HostDate s\<close> is whatever the host makes of the string \<open>s\<close> (possibly the
  invalid date).
\<close>

datatype jsdate = DateUTC nat nat nat | HostDate string

text \<open>
  A cell is \<open>string | number | Date\<close>. Numbers are modelled by \<open>int\<close>: the module only
  compares a cell with the number \<open>0\<close>.
\<close>

datatype cell = CStr string | CNum int | CDate jsdate

text \<open>
  A row is a JavaScript array, an object with an identity: the module changes rows in
  place, and one row array may stand at several positions of \<open>data\<close>. So \<open>data\<close> holds
  the references of its rows, in order, and a heap gives the cells of the row array at
  each reference.
\<close>

type_synonym ref = nat

type_synonym heap = "ref \<Rightarrow> cell list"

record VAMessage =
  version :: string
  resultName :: string
  rowCount :: int
  availableRowCount :: int
  data :: "ref list"
  columns :: "VAColumn list"
  parameters :: "VAParameter list option"

text \<open>
  Every exported function receives \<open>resultData\<close>, which a JavaScript caller may leave
  \<open>null\<close> or \<open>undefined\<close>: the argument is a \<open>VAMessage option\<close>. The only exception the
  module can raise is a \<open>TypeError\<close> (a property read on \<open>null\<close>/\<open>undefined\<close>, or a call of
  a method the value does not have).
\<close>

datatype error = TypeError

section \<open>\<open>validateRoles\<close>\<close>

text \<open>
  \<open>optionalTypes: string | Array<string> | null = null\<close>.
\<close>

datatype optionalTypes = ONull | OSingle string | OList "string list"

text \<open>
  The three \<open>for\<close> loops of \<open>validateRoles\<close> only read; each returns \<open>false\<close> at the first
  index whose types differ, so each is the conjunction over its index range.
\<close>

definition requiredMatch :: "VAColumn list \<Rightarrow> string list \<Rightarrow> bool" where
  "requiredMatch columnsInfo expectedTypes =
     list_all (\<lambda>c. type (columnsInfo ! c) = expectedTypes ! c) [0..<length expectedTypes]"

definition optionalListMatch :: "VAColumn list \<Rightarrow> nat \<Rightarrow> string list \<Rightarrow> bool" where
  "optionalListMatch columnsInfo n optTypes =
     list_all (\<lambda>i. type (columnsInfo ! (n + i)) = optTypes ! i)
       [0..<min (length columnsInfo - n) (length optTypes)]"

definition optionalSingleMatch :: "VAColumn list \<Rightarrow> nat \<Rightarrow> string \<Rightarrow> bool" where
  "optionalSingleMatch columnsInfo n optType =
     list_all (\<lambda>c. type (columnsInfo ! c) = optType) [n..<length columnsInfo]"

definition validateRoles ::
  "VAMessage option \<Rightarrow> string list \<Rightarrow> optionalTypes \<Rightarrow> error + bool" where
  "validateRoles resultData expectedTypes optTypes =
     (case resultData of
        None \<Rightarrow> Inl TypeError
      | Some m \<Rightarrow>
          (let columnsInfo = columns m; numCols = length columnsInfo in
           if numCols < length expectedTypes then Inr False
           else if \<not> requiredMatch columnsInfo expectedTypes then Inr False
           else if numCols > length expectedTypes then
             (case optTypes of
                ONull \<Rightarrow> Inr False
              | OList ts \<Rightarrow> Inr (optionalListMatch columnsInfo (length expectedTypes) ts)
              | OSingle t \<Rightarrow> Inr (optionalSingleMatch columnsInfo (length expectedTypes) t))
           else Inr True))"

text \<open>Appending one column to the message, as the validator properties do.\<close>

definition appendColumn :: "VAMessage \<Rightarrow> VAColumn \<Rightarrow> VAMessage" where
  "appendColumn m col = m\<lparr>columns := columns m @ [col]\<rparr>"

text \<open>Concrete columns and messages used by the examples below.\<close>

definition mkColumn :: "string \<Rightarrow> string option \<Rightarrow> VAFormat option \<Rightarrow> VAColumn" where
  "mkColumn t u f =
     \<lparr>name = ''bi1'', label = ''col'', type = t, usage = u, aggregation = None, format = f\<rparr>"

definition mkMessage :: "VAColumn list \<Rightarrow> ref list \<Rightarrow> VAMessage" where
  "mkMessage cols refs =
     \<lparr>version = ''1'', resultName = ''dd1'', rowCount = int (length refs),
      availableRowCount = int (length refs), data = refs, columns = cols,
      parameters = None\<rparr>"

text \<open>The heap whose row array at reference \<open>a\<close> is the \<open>a\<close>-th of the given rows.\<close>

definition heapOf :: "cell list list \<Rightarrow> heap" where
  "heapOf rows = (\<lambda>a. if a < length rows then rows ! a else [])"

section \<open>\<open>initializeSelections\<close>\<close>

text \<open>
  Reading a JavaScript array out of range gives \<open>undefined\<close> (here \<open>None\<close>), and
  \<open>xs.splice(start, deleteCount)\<close> removes what is there to remove, nothing when \<open>start\<close>
  is past the end.
\<close>

definition nth_opt :: "'a list \<Rightarrow> nat \<Rightarrow> 'a option" where
  "nth_opt xs i = (if i < length xs then Some (xs ! i) else None)"

definition spliceAt :: "nat \<Rightarrow> nat \<Rightarrow> 'a list \<Rightarrow> 'a list" where
  "spliceAt start deleteCount xs = take start xs @ drop (start + deleteCount) xs"

record selection =
  row :: nat

text \<open>
  The inner loop \<open>for (var r = 0; r < arrayData.length; r++)\<close> of a brush column \<open>c\<close>: row
  \<open>r\<close> is selected when \<open>arrayData[r][c] !== 0\<close> (so also when the cell is a string, a date
  or missing), then \<open>arrayData[r].splice(c, 1)\<close> removes the cell from the row array, in
  the heap. The outer array \<open>arrayData\<close> is only read.
\<close>

fun brushRowLoop ::
  "nat \<Rightarrow> nat \<Rightarrow> ref list \<Rightarrow> selection list \<Rightarrow> heap \<Rightarrow> selection list \<times> heap" where
  "brushRowLoop c r [] selections h = (selections, h)"
| "brushRowLoop c r (a # arrayData) selections h =
     (let selections' =
            (if nth_opt (h a) c \<noteq> Some (CNum 0) then selections @ [\<lparr>row = r\<rparr>] else selections);
          h' = h(a := spliceAt c 1 (h a))
      in brushRowLoop c (Suc r) arrayData selections' h')"

text \<open>
  The outer loop \<open>for (var c = 0; c < columnsInfo.length; c++)\<close>. The column list
  shrinks inside the loop and \<open>c\<close> is incremented after every iteration, also after a
  removal; \<open>columnsInfo[c].usage && columnsInfo[c].usage === 'brush'\<close> holds exactly when
  the optional tag is the string \<open>brush\<close>.
\<close>

function brushColumnLoop ::
  "nat \<Rightarrow> VAColumn list \<Rightarrow> ref list \<Rightarrow> selection list \<Rightarrow> heap
     \<Rightarrow> VAColumn list \<times> selection list \<times> heap" where
  "brushColumnLoop c columnsInfo arrayData selections h =
     (if c < length columnsInfo then
        (if usage (columnsInfo ! c) = Some ''brush'' then
           (let columnsInfo' = spliceAt c 1 columnsInfo;
                (selections', h') = brushRowLoop c 0 arrayData selections h
            in brushColumnLoop (Suc c) columnsInfo' arrayData selections' h')
         else brushColumnLoop (Suc c) columnsInfo arrayData selections h)
      else (columnsInfo, selections, h))"
  by pat_completeness auto
termination
  by (relation
      "measure (\<lambda>(c, columnsInfo, arrayData, selections, h). length columnsInfo - c)")
    (auto simp: spliceAt_def)

declare brushColumnLoop.simps [simp del]

text \<open>
  The result is the returned value (\<open>None\<close> is \<open>null\<close>), the message object as the call
  leaves it, and the heap as the call leaves it. \<open>columns\<close> and \<open>data\<close> are required fields
  of \<open>VAMessage\<close>, so the guard \<open>columnsInfo && arrayData\<close> holds for every message.
\<close>

definition initializeSelections ::
  "VAMessage option \<Rightarrow> heap \<Rightarrow> selection list option \<times> VAMessage option \<times> heap" where
  "initializeSelections resultData h =
     (case resultData of
        None \<Rightarrow> (None, None, h)
      | Some m \<Rightarrow>
          (let (columnsInfo, selections, h') = brushColumnLoop 0 (columns m) (data m) [] h
           in (Some selections, Some (m\<lparr>columns := columnsInfo\<rparr>), h')))"

section \<open>\<open>convertDateColumns\<close>\<close>

text \<open>
  \<open>String.prototype.trim\<close> strips white space and line terminators from both ends; over
  the one-byte alphabet these are the code units 9 to 13, 32 and 160.
\<close>

definition isWhiteSpace :: "char \<Rightarrow> bool" where
  "isWhiteSpace ch = ((of_char ch :: nat) \<in> set [9, 10, 11, 12, 13, 32, 160])"

definition trim :: "string \<Rightarrow> string" where
  "trim s = rev (dropWhile isWhiteSpace (rev (dropWhile isWhiteSpace s)))"

text \<open>\<open>s.substr(start)\<close> and \<open>s.substr(start, length)\<close> for the non-negative arguments used.\<close>

definition substrFrom :: "nat \<Rightarrow> string \<Rightarrow> string" where
  "substrFrom start s = drop start s"

definition substr :: "nat \<Rightarrow> nat \<Rightarrow> string \<Rightarrow> string" where
  "substr start len s = take len (drop start s)"

text \<open>
  Modelled from the spec: the \<open>Date\<close> constructor is the host's and not part of the
  repository. ECMAScript's date-time string format gives the date-only form \<open>YYYY-MM-DD\<close>
  (four, two and two decimal digits, month 01 to 12, a day of that month) the meaning
  midnight UTC of that day; any other string is left to the host (\<open>HostDate\<close>).
\<close>

definition digitVal :: "char \<Rightarrow> nat option" where
  "digitVal ch =
     (let n = (of_char ch :: nat) in if 48 \<le> n \<and> n \<le> 57 then Some (n - 48) else None)"

fun digitsVal :: "nat \<Rightarrow> string \<Rightarrow> nat option" where
  "digitsVal acc [] = Some acc"
| "digitsVal acc (ch # s) =
     (case digitVal ch of None \<Rightarrow> None | Some d \<Rightarrow> digitsVal (10 * acc + d) s)"

definition daysInMonth :: "nat \<Rightarrow> nat \<Rightarrow> nat" where
  "daysInMonth y m =
     (if m = 2 then (if (y mod 4 = 0 \<and> y mod 100 \<noteq> 0) \<or> y mod 400 = 0 then 29 else 28)
      else if m \<in> set [4, 6, 9, 11] then 30 else 31)"

definition isoDateOnly :: "string \<Rightarrow> (nat \<times> nat \<times> nat) option" where
  "isoDateOnly s =
     (if length s = 10 \<and> s ! 4 = CHR ''-'' \<and> s ! 7 = CHR ''-'' then
        (case (digitsVal 0 (take 4 s), digitsVal 0 (take 2 (drop 5 s)), digitsVal 0 (drop 8 s)) of
           (Some y, Some m, Some d) \<Rightarrow>
             (if 1 \<le> m \<and> m \<le> 12 \<and> 1 \<le> d \<and> d \<le> daysInMonth y m then Some (y, m, d)
              else None)
         | _ \<Rightarrow> None)
      else None)"

definition newDate :: "string \<Rightarrow> jsdate" where
  "newDate s = (case isoDateOnly s of Some (y, m, d) \<Rightarrow> DateUTC y m d | None \<Rightarrow> HostDate s)"

text \<open>
  The \<open>if\<close>/\<open>else if\<close> chain on \<open>colInfo.format\<close> in the loop body: the string handed to
  \<open>new Date\<close>, from the trimmed cell. Each guard is
  \<open>colInfo.format && colInfo.format.formatString == ...\<close>.
\<close>

definition rearrangeDateStr :: "VAFormat option \<Rightarrow> string \<Rightarrow> string" where
  "rearrangeDateStr fmt dateStr =
     (if map_option formatString fmt = Some ''DDMMYY8'' then
        substrFrom 6 dateStr @ ''-'' @ substr 3 2 dateStr @ ''-'' @ substr 0 2 dateStr
      else if map_option formatString fmt = Some ''JULIAN7'' then dateStr
      else if map_option formatString fmt = Some ''DATE9'' then
        substr 0 2 dateStr @ '' '' @ substr 2 3 dateStr @ '' '' @ substrFrom 5 dateStr
      else dateStr)"

text \<open>
  The loop body on the cell \<open>arrayData[r][c]\<close>: \<open>.trim()\<close> is called on whatever is
  there, which raises a \<open>TypeError\<close> unless it is a string (a number and a \<open>Date\<close> have no
  \<open>trim\<close>, \<open>undefined\<close> has no properties).
\<close>

definition convertCell :: "VAColumn \<Rightarrow> cell option \<Rightarrow> error + cell" where
  "convertCell colInfo v =
     (case v of
        Some (CStr s) \<Rightarrow> Inr (CDate (newDate (rearrangeDateStr (format colInfo) (trim s))))
      | _ \<Rightarrow> Inl TypeError)"

text \<open>
  The loops return the heap as it stands when the loop ends, together with the
  exception that ended it, if one did: rows before the failing one are already
  rewritten. \<open>arrayData[r][c] = new Date(dateStr)\<close> writes into the row array, in the
  heap.
\<close>

fun dateRowLoop :: "VAColumn \<Rightarrow> nat \<Rightarrow> ref list \<Rightarrow> heap \<Rightarrow> error option \<times> heap" where
  "dateRowLoop colInfo c [] h = (None, h)"
| "dateRowLoop colInfo c (a # arrayData) h =
     (case convertCell colInfo (nth_opt (h a) c) of
        Inl e \<Rightarrow> (Some e, h)
      | Inr v \<Rightarrow> dateRowLoop colInfo c arrayData (h(a := (h a)[c := v])))"

fun dateColumnLoop ::
  "nat \<Rightarrow> VAColumn list \<Rightarrow> ref list \<Rightarrow> heap \<Rightarrow> error option \<times> heap" where
  "dateColumnLoop c [] arrayData h = (None, h)"
| "dateColumnLoop c (colInfo # columnsInfo) arrayData h =
     (if type colInfo = ''date'' then
        (case dateRowLoop colInfo c arrayData h of
           (Some e, h') \<Rightarrow> (Some e, h')
         | (None, h') \<Rightarrow> dateColumnLoop (Suc c) columnsInfo arrayData h')
      else dateColumnLoop (Suc c) columnsInfo arrayData h)"

text \<open>
  The result is the exception raised (\<open>None\<close> when the call returns), the message object
  (the call writes to none of its fields) and the heap as the call leaves it.
\<close>

definition convertDateColumns ::
  "VAMessage option \<Rightarrow> heap \<Rightarrow> error option \<times> VAMessage option \<times> heap" where
  "convertDateColumns resultData h =
     (case resultData of
        None \<Rightarrow> (None, None, h)
      | Some m \<Rightarrow>
          (let (e, h') = dateColumnLoop 0 (columns m) (data m) h
           in (e, Some m, h')))"

section \<open>\<open>getVAParameters\<close>\<close>

text \<open>
  The returned object starts as the plain object \<open>{}\<close>: it has no property of its own and
  its prototype is \<open>Object.prototype\<close>. The model keeps its own properties and its
  prototype, \<open>None\<close> for \<open>Object.prototype\<close> and \<open>Some xs\<close> for the array \<open>xs\<close>.
\<close>

record parametersObject =
  own :: "string \<rightharpoonup> paramValue"
  proto :: "string list option"

definition emptyObject :: parametersObject where
  "emptyObject = \<lparr>own = Map.empty, proto = None\<rparr>"

text \<open>
  \<open>parameters[parameter.label] = parameter.value\<close>. For the label \<open>__proto__\<close> the
  assignment reaches the setter that \<open>Object.prototype\<close> has under that name: it creates
  no property, ignores a string and makes an array the prototype of the object. Under
  any other label the object gets the value as a property of its own (nothing else in
  the prototype chain is a setter).
\<close>

definition assignParameter :: "VAParameter \<Rightarrow> parametersObject \<Rightarrow> parametersObject" where
  "assignParameter parameter params =
     (if paramLabel parameter = ''__proto__'' then
        (case paramValue parameter of
           Single s \<Rightarrow> params
         | Multiple xs \<Rightarrow> params\<lparr>proto := Some xs\<rparr>)
      else params\<lparr>own := (own params)(paramLabel parameter \<mapsto> paramValue parameter)\<rparr>)"

text \<open>
  \<open>resultData.parameters\<close> is read without a guard on \<open>resultData\<close>; an array, also an
  empty one, is truthy, and \<open>forEach\<close> visits the parameters in order.
\<close>

definition getVAParameters :: "VAMessage option \<Rightarrow> error + parametersObject" where
  "getVAParameters resultData =
     (case resultData of
        None \<Rightarrow> Inl TypeError
      | Some m \<Rightarrow>
          (case parameters m of
             None \<Rightarrow> Inr emptyObject
           | Some ps \<Rightarrow> Inr (fold assignParameter ps emptyObject)))"

section \<open>\<open>setupResizeListener\<close>\<close>

text \<open>
  Modelled from the spec: the host's event target and timers (\<open>addEventListener\<close>,
  \<open>dispatchEvent\<close>, \<open>setTimeout\<close>, \<open>clearTimeout\<close>) are not part of the repository. The
  spec asks for a single-threaded host with custom event dispatch, resize notifications
  and a schedule-after-delay / cancel-scheduled primitive. Time is counted in the units
  of the delay; a pending timer runs when the clock reaches its due time; a handle is a
  positive number and is never issued twice.

  A pending timer of the module carries its handle, its due time and the
  \<open>setupResizeListener\<close> call whose closure scheduled it (and whose \<open>resizeEndEvent\<close>
  object it will dispatch).
\<close>

record timer =
  handle :: nat
  due :: nat
  owner :: nat

text \<open>
  The page: the module's variable \<open>_timeoutID\<close> (\<open>None\<close> while it is \<open>undefined\<close>),
  declared once at module level, and the host's clock, timers and listeners. A
  \<open>resize\<close> listener is identified by the number of the call that registered it, a
  \<open>resizeEndEvent\<close> listener by the callback it calls. Callbacks are opaque: a call is
  recorded with its time, and a callback does not itself touch timers or listeners.
\<close>

record 'cb page =
  timeoutID :: "nat option"
  now :: nat
  nextHandle :: nat
  pending :: "timer list"
  resizeListeners :: "nat list"
  resizeEndListeners :: "'cb list"
  invocations :: "(nat \<times> 'cb) list"

definition freshPage :: "'cb page" where
  "freshPage =
     \<lparr>timeoutID = None, now = 0, nextHandle = 1, pending = [], resizeListeners = [],
      resizeEndListeners = [], invocations = []\<rparr>"

definition setTimeout :: "nat \<Rightarrow> nat \<Rightarrow> 'cb page \<Rightarrow> nat \<times> 'cb page" where
  "setTimeout i delay w =
     (nextHandle w,
      w\<lparr>pending := pending w @ [\<lparr>handle = nextHandle w, due = now w + delay, owner = i\<rparr>],
        nextHandle := Suc (nextHandle w)\<rparr>)"

definition clearTimeout :: "nat \<Rightarrow> 'cb page \<Rightarrow> 'cb page" where
  "clearTimeout h w = w\<lparr>pending := filter (\<lambda>tm. handle tm \<noteq> h) (pending w)\<rparr>"

text \<open>
  \<open>window.dispatchEvent(resizeEndEvent)\<close>: every \<open>resizeEndEvent\<close> listener runs, in the
  order of registration, and each calls its callback.
\<close>

definition dispatchResizeEnd :: "'cb page \<Rightarrow> 'cb page" where
  "dispatchResizeEnd w =
     w\<lparr>invocations := invocations w @ map (\<lambda>callback. (now w, callback)) (resizeEndListeners w)\<rparr>"

text \<open>
  \<open>setupResizeListener(callback)\<close> registers one listener for \<open>resizeEndEvent\<close> and one
  for \<open>resize\<close>. It declares no variable for the timer: the \<open>resize\<close> listener below works
  on \<open>_timeoutID\<close>.
\<close>

definition setupResizeListener :: "'cb \<Rightarrow> 'cb page \<Rightarrow> 'cb page" where
  "setupResizeListener callback w =
     w\<lparr>resizeEndListeners := resizeEndListeners w @ [callback],
       resizeListeners := resizeListeners w @ [length (resizeListeners w)]\<rparr>"

text \<open>
  The \<open>resize\<close> listener registered by call \<open>i\<close>:
  \<open>if (_timeoutID) { clearTimeout(_timeoutID) }\<close>, then
  \<open>_timeoutID = setTimeout(..., 25)\<close>. A handle is truthy unless it is \<open>0\<close>.
\<close>

definition onResize :: "nat \<Rightarrow> 'cb page \<Rightarrow> 'cb page" where
  "onResize i w =
     (let w1 = (case timeoutID w of
                  Some h \<Rightarrow> if h \<noteq> 0 then clearTimeout h w else w
                | None \<Rightarrow> w);
          (h', w2) = setTimeout i 25 w1
      in w2\<lparr>timeoutID := Some h'\<rparr>)"

text \<open>A raw resize notification: every \<open>resize\<close> listener runs, in the order of registration.\<close>

definition dispatchResize :: "'cb page \<Rightarrow> 'cb page" where
  "dispatchResize w = fold onResize (resizeListeners w) w"

text \<open>
  A timer of the module runs: it leaves the pending list and its function dispatches the
  \<open>resizeEndEvent\<close>. The clock moving on to \<open>t\<close> runs the timers that are due by then,
  earliest first.
\<close>

definition fire :: "timer \<Rightarrow> 'cb page \<Rightarrow> 'cb page" where
  "fire tm w =
     dispatchResizeEnd
       (w\<lparr>now := max (now w) (due tm),
          pending := filter (\<lambda>x. handle x \<noteq> handle tm) (pending w)\<rparr>)"

definition advanceTo :: "nat \<Rightarrow> 'cb page \<Rightarrow> 'cb page" where
  "advanceTo t w =
     (let w' = fold fire (sort_key due (filter (\<lambda>tm. due tm \<le> t) (pending w))) w
      in w'\<lparr>now := max (now w') t\<rparr>)"

text \<open>A raw resize notification arriving at time \<open>t\<close>.\<close>

definition resizeAt :: "nat \<Rightarrow> 'cb page \<Rightarrow> 'cb page" where
  "resizeAt t w = dispatchResize (advanceTo t w)"

text \<open>
  A burst: the arrival times of one or more notifications, each less than 25 time units
  after the one before. A page is quiet when no timer is pending (every earlier burst
  has had its delivery) and the listeners are those that \<open>setupResizeListener\<close> registers,
  one of each kind per call.
\<close>

fun burst :: "nat list \<Rightarrow> bool" where
  "burst [] = False"
| "burst [t] = True"
| "burst (t # t' # ts) = (t \<le> t' \<and> t' < t + 25 \<and> burst (t' # ts))"

definition quiet :: "'cb page \<Rightarrow> bool" where
  "quiet w \<longleftrightarrow>
     pending w = [] \<and> 0 < nextHandle w \<and>
     length (resizeListeners w) = length (resizeEndListeners w)"

text \<open>The page after two calls of \<open>setupResizeListener\<close>.\<close>

definition twoCalls :: "string page" where
  "twoCalls = setupResizeListener ''redrawB'' (setupResizeListener ''redrawA'' freshPage)"

section \<open>The message after a call\<close>

text \<open>
  The invariant of the data model: every row has one cell per column.
\<close>

definition aligned :: "VAMessage \<Rightarrow> heap \<Rightarrow> bool" where
  "aligned m h \<longleftrightarrow> (\<forall>a \<in> set (data m). length (h a) = length (columns m))"

text \<open>
  The four exported functions that take the message, and the message object and the heap
  as a call on a present message leaves them (also when the call ends in an exception).
  \<open>validateRoles\<close> reads \<open>resultData.columns\<close> and \<open>getVAParameters\<close> reads
  \<open>resultData.parameters\<close>; neither contains an assignment to the message or to anything
  reachable from it, so their models take no heap and return none.
\<close>

datatype operation =
  ValidateRoles "string list" optionalTypes
| InitializeSelections
| ConvertDateColumns
| GetVAParameters

fun stateAfter :: "operation \<Rightarrow> VAMessage \<Rightarrow> heap \<Rightarrow> VAMessage \<times> heap" where
  "stateAfter (ValidateRoles expectedTypes optTypes) m h = (m, h)"
| "stateAfter InitializeSelections m h =
     (case initializeSelections (Some m) h of
        (selections, Some m', h') \<Rightarrow> (m', h')
      | (selections, None, h') \<Rightarrow> (m, h'))"
| "stateAfter ConvertDateColumns m h =
     (case convertDateColumns (Some m) h of
        (e, Some m', h') \<Rightarrow> (m', h')
      | (e, None, h') \<Rightarrow> (m, h'))"
| "stateAfter GetVAParameters m h = (m, h)"

section \<open>Concrete inputs\<close>

text \<open>
  The format descriptor of a \<open>DDMMYY8\<close> column, the parameter list of the collapser's
  example, and a format descriptor whose name is \<open>DDMMYY8\<close> while its format string is
  not.
\<close>

definition ddmmyy8Format :: VAFormat where
  "ddmmyy8Format =
     \<lparr>formatName = ''DDMMYY'', width = Some 8, precision = Some 0, formatString = ''DDMMYY8''\<rparr>"

definition exampleParameters :: "VAParameter list" where
  "exampleParameters =
     [\<lparr>paramLabel = ''a'', paramValue = Single ''1''\<rparr>,
      \<lparr>paramLabel = ''b'', paramValue = Multiple [''x'', ''y'']\<rparr>,
      \<lparr>paramLabel = ''a'', paramValue = Single ''2''\<rparr>]"

definition namedDDMMYY8Format :: VAFormat where
  "namedDDMMYY8Format =
     \<lparr>formatName = ''DDMMYY8'', width = Some 8, precision = Some 0, formatString = ''DDMMYY''\<rparr>"

text \<open>
  The message with one \<open>DDMMYY8\<close> date column and one row, the row array at reference
  0; \<open>heapOf [[v]]\<close> is the heap in which that row holds the cell \<open>v\<close>.
\<close>

definition ddmmyy8Message :: VAMessage where
  "ddmmyy8Message = mkMessage [mkColumn ''date'' None (Some ddmmyy8Format)] [0]"

text \<open>The parameter list with the one label \<open>__proto__\<close>.\<close>

definition protoParameters :: "VAParameter list" where
  "protoParameters = [\<lparr>paramLabel = ''__proto__'', paramValue = Single ''1''\<rparr>]"

text \<open>
  Messages with brush columns. The extractor's example has the columns number, number
  (brush) and two rows, the row arrays at references 0 and 1, which hold \<open>[1, 0]\<close> and
  \<open>[2, 5]\<close> in \<open>exampleBrushHeap\<close>. In \<open>sharedRowMessage\<close> the columns are number (brush),
  number and the one row array at reference 0 stands at both positions of \<open>data\<close>; it
  holds \<open>[0, 7]\<close> in \<open>sharedRowHeap\<close>.
\<close>

definition brushColumn :: VAColumn where
  "brushColumn = mkColumn ''number'' (Some ''brush'') None"

definition exampleBrushMessage :: VAMessage where
  "exampleBrushMessage = mkMessage [mkColumn ''number'' None None, brushColumn] [0, 1]"

definition exampleBrushHeap :: heap where
  "exampleBrushHeap = heapOf [[CNum 1, CNum 0], [CNum 2, CNum 5]]"

definition sharedRowMessage :: VAMessage where
  "sharedRowMessage = mkMessage [brushColumn, mkColumn ''number'' None None] [0, 0]"

definition sharedRowHeap :: heap where
  "sharedRowHeap = heapOf [[CNum 0, CNum 7]]"

section \<open>Auxiliary notions for the proofs\<close>

text \<open>
  The cell \<open>convertDateColumns\<close> stores for the string \<open>s\<close> in a column \<open>colInfo\<close>, and the
  indices \<open>i\<close> that the column loop, started at index \<open>c0\<close> on the columns \<open>cols\<close>, treats as
  date columns.
\<close>

definition converted :: "VAColumn \<Rightarrow> string \<Rightarrow> cell" where
  "converted colInfo s = CDate (newDate (rearrangeDateStr (format colInfo) (trim s)))"

definition isDateColumn :: "nat \<Rightarrow> VAColumn list \<Rightarrow> nat \<Rightarrow> bool" where
  "isDateColumn c0 cols i \<longleftrightarrow>
     c0 \<le> i \<and> i < c0 + length cols \<and> type (cols ! (i - c0)) = ''date''"

text \<open>No two neighbouring columns are both brush columns.\<close>

fun noAdjacentBrush :: "VAColumn list \<Rightarrow> bool" where
  "noAdjacentBrush (x # y # cols) =
     (\<not> (usage x = Some ''brush'' \<and> usage y = Some ''brush'') \<and> noAdjacentBrush (y # cols))"
| "noAdjacentBrush cols = True"

text \<open>
  Inside a burst at most one timer is pending, and \<open>_timeoutID\<close> holds its handle.
\<close>

definition tracked :: "'cb page \<Rightarrow> bool" where
  "tracked w \<longleftrightarrow>
     0 < nextHandle w \<and>
     (pending w = [] \<or>
      (\<exists>tm. pending w = [tm] \<and> timeoutID w = Some (handle tm) \<and> handle tm \<noteq> 0))"

section \<open>Properties of \<open>validateRoles\<close>\<close>

lemma requiredMatch_append:
  "length expectedTypes \<le> length cols \<Longrightarrow>
   requiredMatch (cols @ [col]) expectedTypes = requiredMatch cols expectedTypes"
  by (auto simp: requiredMatch_def list_all_iff nth_append)

lemma optionalSingleMatch_append:
  assumes n: "n \<le> length cols"
  shows "optionalSingleMatch (cols @ [col]) n t = (optionalSingleMatch cols n t \<and> type col = t)"
proof -
  have up: "[n..<length (cols @ [col])] = [n..<length cols] @ [length cols]"
    using n by simp
  have eq: "\<And>c. c < length cols \<Longrightarrow> (cols @ [col]) ! c = cols ! c"
    by (simp add: nth_append)
  show ?thesis
    unfolding optionalSingleMatch_def up
    by (auto simp: list_all_iff eq)
qed

lemma optionalListMatch_append_in:
  assumes n: "n \<le> length cols" and lt: "length cols - n < length ts"
  shows "optionalListMatch (cols @ [col]) n ts =
     (optionalListMatch cols n ts \<and> type col = ts ! (length cols - n))"
proof -
  have "length (cols @ [col]) - n = Suc (length cols - n)"
    using n by (simp add: Suc_diff_le)
  then have m: "min (length (cols @ [col]) - n) (length ts) = Suc (length cols - n)"
    using lt by linarith
  have m': "min (length cols - n) (length ts) = length cols - n"
    using lt by (simp add: min_def)
  have eq: "\<And>i. i < length cols - n \<Longrightarrow> (cols @ [col]) ! (n + i) = cols ! (n + i)"
    by (simp add: nth_append)
  have last: "(cols @ [col]) ! (n + (length cols - n)) = col"
    using n by (simp add: nth_append)
  show ?thesis
    unfolding optionalListMatch_def m m'
    by (auto simp: list_all_iff eq last)
qed

text \<open>
  Claim C3, as amended. If \<open>validateRoles\<close> returns \<open>true\<close> for a message, then appending
  one extra column whose type does not occur in \<open>optionalTypes\<close> makes it return \<open>false\<close>,
  provided the appended column falls inside the range the validator compares: always
  when \<open>optionalTypes\<close> is \<open>null\<close> or a single type tag, and for a list when the list has
  more entries than the message already has columns beyond the required ones.
\<close>

theorem validateRoles_extra_column:
  assumes "validateRoles (Some m) expectedTypes optTypes = Inr True"
    and "case optTypes of
           ONull \<Rightarrow> True
         | OSingle t \<Rightarrow> type col \<noteq> t
         | OList ts \<Rightarrow> type col \<notin> set ts \<and> length (columns m) - length expectedTypes < length ts"
  shows "validateRoles (Some (appendColumn m col)) expectedTypes optTypes = Inr False"
proof -
  have le: "length expectedTypes \<le> length (columns m)"
    using assms(1) by (auto simp: validateRoles_def Let_def split: if_splits)
  have req: "requiredMatch (columns m) expectedTypes"
    using assms(1) by (auto simp: validateRoles_def Let_def split: if_splits)
  show ?thesis
  proof (cases optTypes)
    case ONull
    then show ?thesis using le req
      by (simp add: validateRoles_def appendColumn_def Let_def requiredMatch_append)
  next
    case (OSingle t)
    then show ?thesis using le req assms(2)
      by (simp add: validateRoles_def appendColumn_def Let_def requiredMatch_append
          optionalSingleMatch_append)
  next
    case (OList ts)
    then have "type col \<noteq> ts ! (length (columns m) - length expectedTypes)"
      using assms(2) by auto
    then show ?thesis using le req assms(2) OList
      by (simp add: validateRoles_def appendColumn_def Let_def requiredMatch_append
          optionalListMatch_append_in)
  qed
qed

text \<open>
  The theorem at a message with the one required column: a \<open>date\<close> column appended where
  the optional list \<open>["number"]\<close> expects a number.
\<close>

theorem validateRoles_extra_column_witness:
  "validateRoles (Some (mkMessage [mkColumn ''string'' None None] [])) [''string''] (OList [''number''])
     = Inr True
   \<and> validateRoles (Some (appendColumn (mkMessage [mkColumn ''string'' None None] [])
         (mkColumn ''date'' None None))) [''string''] (OList [''number'']) = Inr False"
proof -
  have a: "validateRoles (Some (mkMessage [mkColumn ''string'' None None] [])) [''string'']
             (OList [''number'']) = Inr True"
    by (simp add: validateRoles_def mkMessage_def mkColumn_def requiredMatch_def)
  have b: "case OList [''number''] of
           ONull \<Rightarrow> True
         | OSingle t \<Rightarrow> type (mkColumn ''date'' None None) \<noteq> t
         | OList ts \<Rightarrow> type (mkColumn ''date'' None None) \<notin> set ts \<and>
             length (columns (mkMessage [mkColumn ''string'' None None] [])) - length [''string'']
               < length ts"
    by (simp add: mkMessage_def mkColumn_def)
  show ?thesis
    using a validateRoles_extra_column [OF a b] by simp
qed

text \<open>
  Claim C3 as stated fails once the optional list is used up: with required types
  \<open>["string"]\<close>, optional types \<open>["number"]\<close> and columns string, number the validator
  returns \<open>true\<close>, and it still returns \<open>true\<close> after a \<open>date\<close> column is appended, because
  the comparison stops at the end of the optional list.
\<close>

theorem validateRoles_extra_column_counterexample:
  "validateRoles (Some (mkMessage [mkColumn ''string'' None None, mkColumn ''number'' None None] []))
      [''string''] (OList [''number'']) = Inr True
   \<and> type (mkColumn ''date'' None None) \<notin> set [''number'']
   \<and> validateRoles (Some (appendColumn
        (mkMessage [mkColumn ''string'' None None, mkColumn ''number'' None None] [])
        (mkColumn ''date'' None None))) [''string''] (OList [''number'']) = Inr True"
  by (simp add: validateRoles_def appendColumn_def mkMessage_def mkColumn_def requiredMatch_def
      optionalListMatch_def)

section \<open>Properties of \<open>getVAParameters\<close>\<close>

text \<open>
  What the returned object holds as its own properties: for every label other than
  \<open>__proto__\<close> the value of the last parameter carrying it (the lookup in the reversed
  list finds the latest entry first), and nothing under \<open>__proto__\<close>.
\<close>

lemma fold_assignParameter_own:
  "own (fold assignParameter ps obj)
     = own obj ++ map_of (rev (map (\<lambda>p. (paramLabel p, paramValue p))
                                 (filter (\<lambda>p. paramLabel p \<noteq> ''__proto__'') ps)))"
proof (induction ps arbitrary: obj)
  case Nil
  show ?case by simp
next
  case (Cons p ps)
  let ?M = "\<lambda>qs. map_of (rev (map (\<lambda>p. (paramLabel p, paramValue p))
                                 (filter (\<lambda>p. paramLabel p \<noteq> ''__proto__'') qs)))"
  have "own (fold assignParameter (p # ps) obj) = own (fold assignParameter ps (assignParameter p obj))"
    by (simp only: fold_simps)
  also have "\<dots> = own (assignParameter p obj) ++ ?M ps"
    by (rule Cons.IH)
  also have "\<dots> = own obj ++ ?M (p # ps)"
  proof (cases "paramLabel p = ''__proto__''")
    case True
    then have "own (assignParameter p obj) = own obj"
      by (simp add: assignParameter_def split: paramValue.splits)
    then show ?thesis using True by simp
  next
    case False
    then have "own (assignParameter p obj) = own obj ++ [paramLabel p \<mapsto> paramValue p]"
      by (simp add: assignParameter_def)
    then show ?thesis using False by simp
  qed
  finally show ?case .
qed

lemma getVAParameters_own:
  "getVAParameters (Some (m\<lparr>parameters := Some ps\<rparr>)) = Inr obj \<Longrightarrow>
   own obj = map_of (rev (map (\<lambda>p. (paramLabel p, paramValue p))
                            (filter (\<lambda>p. paramLabel p \<noteq> ''__proto__'') ps)))"
  by (auto simp: getVAParameters_def fold_assignParameter_own emptyObject_def)

text \<open>
  Without parameters the returned object is empty, and the parameters \<open>a = "1"\<close>,
  \<open>b = ["x", "y"]\<close>, \<open>a = "2"\<close> give \<open>{a: "2", b: ["x", "y"]}\<close>.
\<close>

lemma getVAParameters_absent:
  "getVAParameters (Some (m\<lparr>parameters := None\<rparr>)) = Inr emptyObject"
  by (simp add: getVAParameters_def)

lemma getVAParameters_example:
  "getVAParameters (Some (m\<lparr>parameters := Some exampleParameters\<rparr>))
     = Inr \<lparr>own = [''a'' \<mapsto> Single ''2'', ''b'' \<mapsto> Multiple [''x'', ''y'']], proto = None\<rparr>"
proof -
  have "[''a'' \<mapsto> Single ''1'', ''b'' \<mapsto> Multiple [''x'', ''y''], ''a'' \<mapsto> Single ''2'']
        = [''a'' \<mapsto> Single ''2'', ''b'' \<mapsto> Multiple [''x'', ''y'']]"
    by (rule ext) simp
  then show ?thesis
    by (simp add: getVAParameters_def exampleParameters_def assignParameter_def emptyObject_def)
qed

text \<open>
  Claim C8 at a parameter whose label is \<open>__proto__\<close>. With the value \<open>"1"\<close> the
  assignment is ignored: the returned object is empty and does not map the label to its
  value. With the value \<open>["x"]\<close> the array becomes the prototype of the returned object,
  which again has no property of its own.
\<close>

theorem getVAParameters_proto_label:
  "getVAParameters (Some (m\<lparr>parameters := Some protoParameters\<rparr>)) = Inr emptyObject
   \<and> own emptyObject ''__proto__'' = None
   \<and> getVAParameters
        (Some (m\<lparr>parameters := Some [\<lparr>paramLabel = ''__proto__'', paramValue = Multiple [''x'']\<rparr>]\<rparr>))
       = Inr \<lparr>own = Map.empty, proto = Some [''x'']\<rparr>"
  by (simp add: getVAParameters_def protoParameters_def assignParameter_def emptyObject_def)

text \<open>
  Claim C9. For an absent message \<open>initializeSelections\<close> returns \<open>null\<close> and
  \<open>convertDateColumns\<close> returns without touching anything, while \<open>getVAParameters\<close> has no
  such guard: it does not return the empty mapping, its read of \<open>resultData.parameters\<close>
  raises a \<open>TypeError\<close>.
\<close>

theorem getVAParameters_unguarded:
  "getVAParameters None = Inl TypeError
   \<and> getVAParameters None \<noteq> Inr emptyObject
   \<and> initializeSelections None h = (None, None, h)
   \<and> convertDateColumns None h = (None, None, h)"
  by (simp add: getVAParameters_def initializeSelections_def convertDateColumns_def)

section \<open>Properties of \<open>convertDateColumns\<close>\<close>

lemma newDate_2023_02_15: "newDate ''2023-02-15'' = DateUTC 2023 2 15"
  by (simp add: newDate_def isoDateOnly_def digitVal_def daysInMonth_def)

lemma heapOf_update_single: "(heapOf [[v]])(0 := [w]) = heapOf [[w]]"
  by (rule ext) (simp add: heapOf_def)

text \<open>
  Claim C1 as stated fails: the offsets 6, 3 and 0 skip a separator after the day and
  after the month, so on the undelimited string \<open>15022023\<close> they cut out \<open>23\<close>, \<open>22\<close> and
  \<open>15\<close>. The string handed to \<open>new Date\<close> is \<open>23-22-15\<close>, not \<open>2023-02-15\<close>, and the stored
  cell is whatever the host makes of that.
\<close>

theorem convertDateColumns_DDMMYY8_counterexample:
  "rearrangeDateStr (Some ddmmyy8Format) (trim ''15022023'') = ''23-22-15''
   \<and> rearrangeDateStr (Some ddmmyy8Format) (trim ''15022023'') \<noteq> ''2023-02-15''
   \<and> convertDateColumns (Some ddmmyy8Message) (heapOf [[CStr ''15022023'']])
       = (None, Some ddmmyy8Message, heapOf [[CDate (HostDate ''23-22-15'')]])"
proof -
  have h: "heapOf [[CStr ''15022023'']] 0 = [CStr ''15022023'']"
    by (simp add: heapOf_def)
  show ?thesis
    by (simp add: convertDateColumns_def ddmmyy8Message_def mkMessage_def mkColumn_def
        ddmmyy8Format_def convertCell_def nth_opt_def rearrangeDateStr_def substr_def
        substrFrom_def trim_def isWhiteSpace_def newDate_def isoDateOnly_def h
        heapOf_update_single)
qed

text \<open>
  Claim C1, as amended. For a date-typed column whose format string is \<open>DDMMYY8\<close>,
  \<open>convertDateColumns\<close> rearranges the trimmed cell string into the characters from offset
  6 on, a dash, the two characters at offset 3, a dash, and the two characters at offset
  0. The delimited string \<open>15/02/2023\<close> so becomes \<open>2023-02-15\<close>, and the stored cell is the
  date February 15, 2023.
\<close>

theorem convertDateColumns_DDMMYY8:
  "rearrangeDateStr (Some ddmmyy8Format) dateStr
     = drop 6 dateStr @ ''-'' @ take 2 (drop 3 dateStr) @ ''-'' @ take 2 dateStr
   \<and> rearrangeDateStr (Some ddmmyy8Format) (trim ''15/02/2023'') = ''2023-02-15''
   \<and> convertDateColumns (Some ddmmyy8Message) (heapOf [[CStr ''15/02/2023'']])
       = (None, Some ddmmyy8Message, heapOf [[CDate (DateUTC 2023 2 15)]])"
proof -
  have h: "heapOf [[CStr ''15/02/2023'']] 0 = [CStr ''15/02/2023'']"
    by (simp add: heapOf_def)
  show ?thesis
    by (simp add: convertDateColumns_def ddmmyy8Message_def mkMessage_def mkColumn_def
        ddmmyy8Format_def convertCell_def nth_opt_def rearrangeDateStr_def substr_def
        substrFrom_def trim_def isWhiteSpace_def newDate_2023_02_15 h heapOf_update_single)
qed

text \<open>The loops overwrite cells in place: no row array changes its length.\<close>

lemma dateRowLoop_length:
  "length (snd (dateRowLoop colInfo c arrayData h) a) = length (h a)"
  by (induction arrayData arbitrary: h) (auto split: sum.splits)

lemma dateColumnLoop_length:
  "length (snd (dateColumnLoop c columnsInfo arrayData h) a) = length (h a)"
proof (induction columnsInfo arbitrary: c h)
  case Nil
  show ?case by simp
next
  case (Cons colInfo columnsInfo)
  show ?case
  proof (cases "type colInfo = ''date''")
    case False
    then show ?thesis using Cons.IH by simp
  next
    case True
    obtain e h1 where r: "dateRowLoop colInfo c arrayData h = (e, h1)"
      by (cases "dateRowLoop colInfo c arrayData h")
    have l1: "length (h1 a) = length (h a)"
      using dateRowLoop_length [of colInfo c arrayData h a] r by simp
    show ?thesis
    proof (cases e)
      case None
      then show ?thesis using True r l1 Cons.IH [of "Suc c" h1] by simp
    next
      case (Some err)
      then show ?thesis using True r l1 by simp
    qed
  qed
qed

lemma nth_opt_update:
  "nth_opt (xs[c := v]) i = (if i = c \<and> c < length xs then Some v else nth_opt xs i)"
  by (auto simp: nth_opt_def)

lemma nth_opt_Some_length: "nth_opt xs i = Some v \<Longrightarrow> i < length xs"
  by (auto simp: nth_opt_def split: if_splits)

text \<open>
  When the row loop of a date column returns, every row array it visited held a string
  in that column, now converted, and it visited none twice: the second visit would have
  found a date.
\<close>

lemma dateRowLoop_None:
  "dateRowLoop colInfo c arrayData h = (None, h') \<Longrightarrow>
   (\<forall>a \<in> set arrayData. \<exists>s. nth_opt (h a) c = Some (CStr s) \<and>
        h' a = (h a)[c := converted colInfo s]) \<and>
   (\<forall>a. a \<notin> set arrayData \<longrightarrow> h' a = h a)"
proof (induction arrayData arbitrary: h)
  case Nil
  then show ?case by simp
next
  case (Cons a arrayData)
  from Cons.prems obtain s where s: "nth_opt (h a) c = Some (CStr s)"
    by (auto simp: convertCell_def split: option.splits cell.splits)
  let ?h1 = "h(a := (h a)[c := converted colInfo s])"
  from Cons.prems s have rest: "dateRowLoop colInfo c arrayData ?h1 = (None, h')"
    by (simp add: convertCell_def converted_def)
  from Cons.IH [OF rest]
  have ih: "\<And>b. b \<in> set arrayData \<Longrightarrow> \<exists>s. nth_opt (?h1 b) c = Some (CStr s) \<and>
        h' b = (?h1 b)[c := converted colInfo s]"
    and frame: "\<And>b. b \<notin> set arrayData \<Longrightarrow> h' b = ?h1 b"
    by auto
  have len: "c < length (h a)" using s by (rule nth_opt_Some_length)
  have fresh: "a \<notin> set arrayData"
  proof
    assume "a \<in> set arrayData"
    from ih [OF this] obtain s' where "nth_opt (?h1 a) c = Some (CStr s')" by auto
    then show False using len by (simp add: nth_opt_update converted_def)
  qed
  show ?case
  proof (intro conjI ballI allI impI)
    fix b assume b: "b \<in> set (a # arrayData)"
    show "\<exists>s. nth_opt (h b) c = Some (CStr s) \<and> h' b = (h b)[c := converted colInfo s]"
    proof (cases "b = a")
      case True
      then show ?thesis using s frame [OF fresh] by simp
    next
      case False
      then have "b \<in> set arrayData" using b by simp
      from ih [OF this] False show ?thesis by simp
    qed
  next
    fix b assume "b \<notin> set (a # arrayData)"
    then show "h' b = h b" using frame [of b] by simp
  qed
qed

lemma isDateColumn_Cons:
  "isDateColumn c0 (col # cols) i =
     (if i = c0 then type col = ''date'' else isDateColumn (Suc c0) cols i)"
  by (auto simp: isDateColumn_def nth_Cons' Suc_diff_le less_Suc_eq_le)

lemma dateColumnLoop_None:
  "dateColumnLoop c0 cols refs h = (None, h') \<Longrightarrow>
   (\<forall>a \<in> set refs. \<forall>i.
      (if isDateColumn c0 cols i
       then \<exists>s. nth_opt (h a) i = Some (CStr s) \<and>
                nth_opt (h' a) i = Some (converted (cols ! (i - c0)) s)
       else nth_opt (h' a) i = nth_opt (h a) i))"
proof (induction cols arbitrary: c0 h)
  case Nil
  then show ?case by (auto simp: isDateColumn_def)
next
  case (Cons col cols)
  show ?case
  proof (cases "type col = ''date''")
    case False
    with Cons.prems have "dateColumnLoop (Suc c0) cols refs h = (None, h')" by simp
    from Cons.IH [OF this] have ih:
      "\<And>a i. a \<in> set refs \<Longrightarrow>
         (if isDateColumn (Suc c0) cols i
          then \<exists>s. nth_opt (h a) i = Some (CStr s) \<and>
                nth_opt (h' a) i = Some (converted (cols ! (i - Suc c0)) s)
          else nth_opt (h' a) i = nth_opt (h a) i)"
      by auto
    show ?thesis
    proof (intro ballI allI)
      fix a i assume a: "a \<in> set refs"
      show "if isDateColumn c0 (col # cols) i
          then \<exists>s. nth_opt (h a) i = Some (CStr s) \<and>
                nth_opt (h' a) i = Some (converted ((col # cols) ! (i - c0)) s)
          else nth_opt (h' a) i = nth_opt (h a) i"
      proof (cases "i = c0")
        case True
        then have "\<not> isDateColumn (Suc c0) cols i" by (simp add: isDateColumn_def)
        then show ?thesis using ih [OF a, of i] True False
          by (simp add: isDateColumn_Cons)
      next
        case ne: False
        show ?thesis
        proof (cases "isDateColumn (Suc c0) cols i")
          case True
          then have "(col # cols) ! (i - c0) = cols ! (i - Suc c0)"
            by (auto simp: isDateColumn_def nth_Cons')
          then show ?thesis using ih [OF a, of i] True ne
            by (simp add: isDateColumn_Cons)
        next
          case False
          then show ?thesis using ih [OF a, of i] ne
            by (simp add: isDateColumn_Cons)
        qed
      qed
    qed
  next
    case True
    obtain e h1 where r1: "dateRowLoop col c0 refs h = (e, h1)"
      by (cases "dateRowLoop col c0 refs h")
    from Cons.prems True r1 have e: "e = None"
      and rest: "dateColumnLoop (Suc c0) cols refs h1 = (None, h')"
      by (auto split: option.splits)
    from dateRowLoop_None [of col c0 refs h h1] r1 e
    have row: "\<And>a. a \<in> set refs \<Longrightarrow> \<exists>s. nth_opt (h a) c0 = Some (CStr s) \<and>
         h1 a = (h a)[c0 := converted col s]"
      by auto
    from Cons.IH [OF rest] have ih:
      "\<And>a i. a \<in> set refs \<Longrightarrow>
         (if isDateColumn (Suc c0) cols i
          then \<exists>s. nth_opt (h1 a) i = Some (CStr s) \<and>
                nth_opt (h' a) i = Some (converted (cols ! (i - Suc c0)) s)
          else nth_opt (h' a) i = nth_opt (h1 a) i)"
      by auto
    show ?thesis
    proof (intro ballI allI)
      fix a i assume a: "a \<in> set refs"
      from row [OF a] obtain s where s: "nth_opt (h a) c0 = Some (CStr s)"
        and h1a: "h1 a = (h a)[c0 := converted col s]" by auto
      have len: "c0 < length (h a)" using s by (rule nth_opt_Some_length)
      show "if isDateColumn c0 (col # cols) i
          then \<exists>s. nth_opt (h a) i = Some (CStr s) \<and>
                nth_opt (h' a) i = Some (converted ((col # cols) ! (i - c0)) s)
          else nth_opt (h' a) i = nth_opt (h a) i"
      proof (cases "i = c0")
        case eq: True
        then have "\<not> isDateColumn (Suc c0) cols i" by (simp add: isDateColumn_def)
        then have "nth_opt (h' a) i = nth_opt (h1 a) i"
          using ih [OF a, of i] by simp
        then show ?thesis using eq True s len h1a
          by (simp add: isDateColumn_Cons nth_opt_update)
      next
        case ne: False
        have same: "nth_opt (h1 a) i = nth_opt (h a) i"
          using ne h1a by (simp add: nth_opt_update)
        show ?thesis
        proof (cases "isDateColumn (Suc c0) cols i")
          case True
          then have "(col # cols) ! (i - c0) = cols ! (i - Suc c0)"
            by (auto simp: isDateColumn_def nth_Cons')
          then show ?thesis using ih [OF a, of i] True ne same
            by (simp add: isDateColumn_Cons)
        next
          case False
          then show ?thesis using ih [OF a, of i] ne same
            by (simp add: isDateColumn_Cons)
        qed
      qed
    qed
  qed
qed

lemma convertDateColumns_cells:
  assumes run: "convertDateColumns (Some m) h = (None, Some m', h')"
    and c: "c < length (columns m)" and d: "type (columns m ! c) = ''date''"
    and r: "r < length (data m)"
  shows "\<exists>s. nth_opt (h (data m ! r)) c = Some (CStr s) \<and>
             nth_opt (h' (data m ! r)) c = Some (converted (columns m ! c) s)"
proof -
  obtain e h1 where l: "dateColumnLoop 0 (columns m) (data m) h = (e, h1)"
    by (cases "dateColumnLoop 0 (columns m) (data m) h")
  with run have e: "e = None" and h1: "h1 = h'"
    by (auto simp: convertDateColumns_def)
  have dc: "isDateColumn 0 (columns m) c" using c d by (simp add: isDateColumn_def)
  have a: "data m ! r \<in> set (data m)" using r by simp
  from l e h1 have "dateColumnLoop 0 (columns m) (data m) h = (None, h')" by simp
  from dateColumnLoop_None [OF this] a
  have "if isDateColumn 0 (columns m) c
       then \<exists>s. nth_opt (h (data m ! r)) c = Some (CStr s) \<and>
                nth_opt (h' (data m ! r)) c = Some (converted (columns m ! (c - 0)) s)
       else nth_opt (h' (data m ! r)) c = nth_opt (h (data m ! r)) c"
    by blast
  with dc show ?thesis by simp
qed

lemma convertDateColumns_message:
  "convertDateColumns (Some m) h = (e, Some m', h') \<Longrightarrow> m' = m"
  by (auto simp: convertDateColumns_def split: prod.splits)

text \<open>
  Claim C5, as amended. For every date-typed column, the rearrangement that
  \<open>convertDateColumns\<close> applies to each cell is selected by the \<open>formatString\<close> field of the
  column's format descriptor (not by its name): whenever the call returns, the cell of
  row \<open>r\<close> in a date column \<open>c\<close> held a string \<open>s\<close> and now holds \<open>new Date\<close> of the
  \<open>DDMMYY8\<close> reordering of the trimmed \<open>s\<close>, of the trimmed \<open>s\<close> itself for \<open>JULIAN7\<close>, of the
  \<open>DATE9\<close> reordering, or of the trimmed \<open>s\<close> itself for any other or no format.
\<close>

theorem convertDateColumns_format_dispatch:
  assumes "convertDateColumns (Some m) h = (None, Some m', h')"
    and "c < length (columns m)" and "type (columns m ! c) = ''date''"
    and "r < length (data m)"
  shows "\<exists>s. nth_opt (h (data m ! r)) c = Some (CStr s) \<and>
           nth_opt (h' (data m' ! r)) c = Some (CDate (newDate
             (let fs = map_option formatString (format (columns m ! c)); t = trim s in
              if fs = Some ''DDMMYY8'' then drop 6 t @ ''-'' @ take 2 (drop 3 t) @ ''-'' @ take 2 t
              else if fs = Some ''JULIAN7'' then t
              else if fs = Some ''DATE9'' then take 2 t @ '' '' @ take 3 (drop 2 t) @ '' '' @ drop 5 t
              else t)))"
proof -
  have m': "m' = m" using assms(1) by (rule convertDateColumns_message)
  from convertDateColumns_cells [OF assms] obtain s
    where "nth_opt (h (data m ! r)) c = Some (CStr s)"
      and "nth_opt (h' (data m ! r)) c = Some (converted (columns m ! c) s)" by auto
  then show ?thesis using m'
    by (auto simp: converted_def rearrangeDateStr_def substr_def substrFrom_def Let_def)
qed

lemma run_ddmmyy8:
  "convertDateColumns (Some ddmmyy8Message) (heapOf [[CStr ''15/02/2023'']])
     = (None, Some ddmmyy8Message, heapOf [[CDate (DateUTC 2023 2 15)]])"
proof -
  have h: "heapOf [[CStr ''15/02/2023'']] 0 = [CStr ''15/02/2023'']"
    by (simp add: heapOf_def)
  show ?thesis
    by (simp add: convertDateColumns_def ddmmyy8Message_def mkMessage_def mkColumn_def
        ddmmyy8Format_def convertCell_def nth_opt_def rearrangeDateStr_def substr_def
        substrFrom_def trim_def isWhiteSpace_def newDate_2023_02_15 h heapOf_update_single)
qed

text \<open>
  The theorem at the one-cell message of a \<open>DDMMYY8\<close> column holding \<open>15/02/2023\<close>, which
  \<open>convertDateColumns\<close> turns into February 15, 2023.
\<close>

theorem convertDateColumns_format_dispatch_witness:
  "\<exists>s. nth_opt (heapOf [[CStr ''15/02/2023'']] (data ddmmyy8Message ! 0)) 0 = Some (CStr s) \<and>
       nth_opt (heapOf [[CDate (DateUTC 2023 2 15)]] (data ddmmyy8Message ! 0)) 0
         = Some (CDate (newDate
         (let fs = map_option formatString (format (columns ddmmyy8Message ! 0));
              t = trim s in
          if fs = Some ''DDMMYY8'' then drop 6 t @ ''-'' @ take 2 (drop 3 t) @ ''-'' @ take 2 t
          else if fs = Some ''JULIAN7'' then t
          else if fs = Some ''DATE9'' then take 2 t @ '' '' @ take 3 (drop 2 t) @ '' '' @ drop 5 t
          else t)))"
proof -
  have c: "0 < length (columns ddmmyy8Message)"
    by (simp add: ddmmyy8Message_def mkMessage_def)
  have d: "type (columns ddmmyy8Message ! 0) = ''date''"
    by (simp add: ddmmyy8Message_def mkMessage_def mkColumn_def)
  have r: "0 < length (data ddmmyy8Message)"
    by (simp add: ddmmyy8Message_def mkMessage_def)
  show ?thesis
    by (rule convertDateColumns_format_dispatch [OF run_ddmmyy8 c d r])
qed

text \<open>
  Claim C5 as stated fails: the guards read \<open>colInfo.format.formatString\<close>, never
  \<open>colInfo.format.name\<close>. A date column whose format name is \<open>DDMMYY8\<close> and whose format
  string is something else gets no rearrangement: the trimmed cell goes to \<open>new Date\<close> as
  it is.
\<close>

theorem convertDateColumns_format_name_counterexample:
  "formatName namedDDMMYY8Format = ''DDMMYY8''
   \<and> rearrangeDateStr (Some namedDDMMYY8Format) (trim ''15/02/2023'') = ''15/02/2023''
   \<and> convertDateColumns
        (Some (mkMessage [mkColumn ''date'' None (Some namedDDMMYY8Format)] [0]))
        (heapOf [[CStr ''15/02/2023'']])
       = (None, Some (mkMessage [mkColumn ''date'' None (Some namedDDMMYY8Format)] [0]),
          heapOf [[CDate (HostDate ''15/02/2023'')]])"
proof -
  have h: "heapOf [[CStr ''15/02/2023'']] 0 = [CStr ''15/02/2023'']"
    by (simp add: heapOf_def)
  show ?thesis
    by (simp add: convertDateColumns_def mkMessage_def mkColumn_def namedDDMMYY8Format_def
        convertCell_def nth_opt_def rearrangeDateStr_def substr_def substrFrom_def
        trim_def isWhiteSpace_def newDate_def isoDateOnly_def h heapOf_update_single)
qed

lemma convertDateColumns_throws:
  assumes c: "c < length (columns m)" and d: "type (columns m ! c) = ''date''"
    and r: "r < length (data m)" and ns: "\<forall>s. nth_opt (h (data m ! r)) c \<noteq> Some (CStr s)"
  shows "fst (convertDateColumns (Some m) h) = Some TypeError"
proof -
  obtain e h' where run: "convertDateColumns (Some m) h = (e, Some m, h')"
    by (cases "dateColumnLoop 0 (columns m) (data m) h") (auto simp: convertDateColumns_def)
  have "e \<noteq> None"
  proof
    assume "e = None"
    with run have "convertDateColumns (Some m) h = (None, Some m, h')" by simp
    from convertDateColumns_cells [OF this c d r] ns show False by auto
  qed
  then obtain err where "e = Some err" by auto
  then show ?thesis using run by (cases err) simp
qed

text \<open>
  Claim C10. \<open>convertDateColumns\<close> requires every cell of every date-typed column to be a
  string: if some row holds anything else (a number, a date, nothing) in a date column,
  the call raises a \<open>TypeError\<close>. In particular it cannot be run on its own output: after
  a call that returned, on a message with a date column and at least one row, a second
  call raises a \<open>TypeError\<close>.
\<close>

theorem convertDateColumns_requires_strings:
  "(c < length (columns m) \<and> type (columns m ! c) = ''date'' \<and> r < length (data m)
      \<and> (\<forall>s. nth_opt (h (data m ! r)) c \<noteq> Some (CStr s))
     \<longrightarrow> fst (convertDateColumns (Some m) h) = Some TypeError)
   \<and> (convertDateColumns (Some m) h = (None, Some m', h') \<and> c < length (columns m)
        \<and> type (columns m ! c) = ''date'' \<and> data m \<noteq> []
     \<longrightarrow> fst (convertDateColumns (Some m') h') = Some TypeError)"
proof (intro conjI impI)
  assume "c < length (columns m) \<and> type (columns m ! c) = ''date'' \<and> r < length (data m)
      \<and> (\<forall>s. nth_opt (h (data m ! r)) c \<noteq> Some (CStr s))"
  then show "fst (convertDateColumns (Some m) h) = Some TypeError"
    using convertDateColumns_throws by blast
next
  assume a: "convertDateColumns (Some m) h = (None, Some m', h') \<and> c < length (columns m)
        \<and> type (columns m ! c) = ''date'' \<and> data m \<noteq> []"
  then have run: "convertDateColumns (Some m) h = (None, Some m', h')"
    and c: "c < length (columns m)" and d: "type (columns m ! c) = ''date''"
    and r: "0 < length (data m)" by auto
  have m': "m' = m" using run by (rule convertDateColumns_message)
  from convertDateColumns_cells [OF run c d r] obtain s
    where cell: "nth_opt (h' (data m ! 0)) c = Some (converted (columns m ! c) s)" by auto
  have "\<forall>s. nth_opt (h' (data m ! 0)) c \<noteq> Some (CStr s)"
    using cell by (simp add: converted_def)
  with convertDateColumns_throws [OF c d r, of h'] m'
  show "fst (convertDateColumns (Some m') h') = Some TypeError" by blast
qed

text \<open>
  Both parts at concrete inputs: a date column holding the number 5, and the heap left
  by the run on \<open>15/02/2023\<close>, whose cell is a date.
\<close>

theorem convertDateColumns_requires_strings_witness:
  "fst (convertDateColumns (Some ddmmyy8Message) (heapOf [[CNum 5]])) = Some TypeError
   \<and> convertDateColumns (Some ddmmyy8Message) (heapOf [[CStr ''15/02/2023'']])
       = (None, Some ddmmyy8Message, heapOf [[CDate (DateUTC 2023 2 15)]])
   \<and> fst (convertDateColumns (Some ddmmyy8Message) (heapOf [[CDate (DateUTC 2023 2 15)]]))
       = Some TypeError"
proof -
  have a: "0 < length (columns ddmmyy8Message)
      \<and> type (columns ddmmyy8Message ! 0) = ''date''
      \<and> 0 < length (data ddmmyy8Message)
      \<and> (\<forall>s. nth_opt (heapOf [[CNum 5]] (data ddmmyy8Message ! 0)) 0 \<noteq> Some (CStr s))"
    by (simp add: ddmmyy8Message_def mkMessage_def mkColumn_def nth_opt_def heapOf_def)
  have b: "convertDateColumns (Some ddmmyy8Message) (heapOf [[CStr ''15/02/2023'']])
        = (None, Some ddmmyy8Message, heapOf [[CDate (DateUTC 2023 2 15)]])
      \<and> 0 < length (columns ddmmyy8Message)
      \<and> type (columns ddmmyy8Message ! 0) = ''date''
      \<and> data ddmmyy8Message \<noteq> []"
    using run_ddmmyy8 by (simp add: ddmmyy8Message_def mkMessage_def mkColumn_def)
  show ?thesis
    using a b
      convertDateColumns_requires_strings
        [of 0 ddmmyy8Message 0 "heapOf [[CNum 5]]" ddmmyy8Message "heapOf [[CNum 5]]"]
      convertDateColumns_requires_strings
        [of 0 ddmmyy8Message 0 "heapOf [[CStr ''15/02/2023'']]" ddmmyy8Message
            "heapOf [[CDate (DateUTC 2023 2 15)]]"]
    by blast
qed

section \<open>Properties of \<open>initializeSelections\<close> and the alignment invariant\<close>

text \<open>
  When no row array stands at two positions of \<open>data\<close>, the row loop of a brush column
  splices every row array once and leaves every other array of the heap alone.
\<close>

lemma brushRowLoop_distinct:
  "distinct arrayData \<Longrightarrow>
   (\<forall>a \<in> set arrayData. snd (brushRowLoop c r arrayData selections h) a = spliceAt c 1 (h a)) \<and>
   (\<forall>a. a \<notin> set arrayData \<longrightarrow> snd (brushRowLoop c r arrayData selections h) a = h a)"
proof (induction arrayData arbitrary: r selections h)
  case Nil
  show ?case by simp
next
  case (Cons a arrayData)
  define sels where
    "sels = (if nth_opt (h a) c \<noteq> Some (CNum 0) then selections @ [\<lparr>row = r\<rparr>] else selections)"
  define h1 where "h1 = h(a := spliceAt c 1 (h a))"
  define h2 where "h2 = snd (brushRowLoop c (Suc r) arrayData sels h1)"
  have step: "snd (brushRowLoop c r (a # arrayData) selections h) = h2"
    by (simp add: sels_def h1_def h2_def Let_def)
  from Cons.prems have fresh: "a \<notin> set arrayData" and d: "distinct arrayData" by simp_all
  have h1a: "h1 a = spliceAt c 1 (h a)" and h1b: "\<And>b. b \<noteq> a \<Longrightarrow> h1 b = h b"
    by (simp_all add: h1_def)
  from Cons.IH [OF d, of "Suc r" sels h1]
  have ih: "\<forall>b \<in> set arrayData. h2 b = spliceAt c 1 (h1 b)"
    and frame: "\<forall>b. b \<notin> set arrayData \<longrightarrow> h2 b = h1 b"
    unfolding h2_def by blast+
  show ?case unfolding step
  proof (intro conjI ballI allI impI)
    fix b assume b: "b \<in> set (a # arrayData)"
    show "h2 b = spliceAt c 1 (h b)"
    proof (cases "b = a")
      case True
      then show ?thesis using frame fresh h1a by simp
    next
      case False
      then have "b \<in> set arrayData" using b by simp
      then show ?thesis using ih h1b [OF False] by simp
    qed
  next
    fix b assume nb: "b \<notin> set (a # arrayData)"
    then have "b \<notin> set arrayData" and "b \<noteq> a" by simp_all
    then show "h2 b = h b" using frame h1b by simp
  qed
qed

lemma brushColumnLoop_aligned:
  "distinct arrayData \<Longrightarrow>
   \<forall>a \<in> set arrayData. length (h a) = length columnsInfo \<Longrightarrow>
   brushColumnLoop c columnsInfo arrayData selections h = (columnsInfo', selections', h') \<Longrightarrow>
   \<forall>a \<in> set arrayData. length (h' a) = length columnsInfo'"
proof (induction c columnsInfo arrayData selections h rule: brushColumnLoop.induct)
  case (1 c columnsInfo arrayData selections h)
  show ?case
  proof (cases "c < length columnsInfo")
    case False
    with "1.prems" show ?thesis by (simp add: brushColumnLoop.simps [of c columnsInfo])
  next
    case lt: True
    show ?thesis
    proof (cases "usage (columnsInfo ! c) = Some ''brush''")
      case False
      with lt "1.prems"(3)
      have "brushColumnLoop (Suc c) columnsInfo arrayData selections h
              = (columnsInfo', selections', h')"
        by (simp add: brushColumnLoop.simps [of c columnsInfo])
      from "1.IH"(2) [OF lt False "1.prems"(1) "1.prems"(2) this] show ?thesis .
    next
      case True
      define cols1 where "cols1 = spliceAt c 1 columnsInfo"
      obtain sels1 h1 where rl: "brushRowLoop c 0 arrayData selections h = (sels1, h1)"
        by (cases "brushRowLoop c 0 arrayData selections h")
      have len: "length cols1 = length columnsInfo - 1"
        using lt by (simp add: cols1_def spliceAt_def)
      have al: "\<forall>a \<in> set arrayData. length (h1 a) = length cols1"
      proof
        fix a assume a: "a \<in> set arrayData"
        with brushRowLoop_distinct [OF "1.prems"(1), of c 0 selections h] rl
        have "h1 a = spliceAt c 1 (h a)" by simp
        moreover have "length (h a) = length columnsInfo" using "1.prems"(2) a by simp
        ultimately show "length (h1 a) = length cols1"
          using lt len by (simp add: spliceAt_def)
      qed
      from lt True rl "1.prems"(3)
      have "brushColumnLoop (Suc c) cols1 arrayData sels1 h1
              = (columnsInfo', selections', h')"
        by (simp add: brushColumnLoop.simps [of c columnsInfo] cols1_def)
      from "1.IH"(1) [OF lt True cols1_def rl [symmetric] refl "1.prems"(1) al this]
      show ?thesis .
    qed
  qed
qed

text \<open>
  Claim C7, as amended. If every row of the message has as many cells as the message has
  columns and, for \<open>initializeSelections\<close>, no row array stands at two positions of
  \<open>data\<close>, then the same holds after any of \<open>validateRoles\<close>, \<open>initializeSelections\<close>,
  \<open>convertDateColumns\<close> and \<open>getVAParameters\<close>.
\<close>

theorem alignment_preserved:
  assumes "aligned m h"
    and "operation = InitializeSelections \<longrightarrow> distinct (data m)"
  shows "case stateAfter operation m h of (m', h') \<Rightarrow> aligned m' h'"
proof (cases operation)
  case (ValidateRoles expectedTypes optTypes)
  then show ?thesis using assms(1) by simp
next
  case InitializeSelections
  then have d: "distinct (data m)" using assms(2) by simp
  obtain cols sels h'
    where l: "brushColumnLoop 0 (columns m) (data m) [] h = (cols, sels, h')"
    by (cases "brushColumnLoop 0 (columns m) (data m) [] h")
  have "\<forall>a \<in> set (data m). length (h' a) = length cols"
    using brushColumnLoop_aligned [OF d _ l] assms(1) by (simp add: aligned_def)
  then show ?thesis using InitializeSelections l
    by (simp add: initializeSelections_def aligned_def)
next
  case ConvertDateColumns
  obtain e h' where l: "dateColumnLoop 0 (columns m) (data m) h = (e, h')"
    by (cases "dateColumnLoop 0 (columns m) (data m) h")
  have "\<forall>a \<in> set (data m). length (h' a) = length (columns m)"
    using dateColumnLoop_length [of 0 "columns m" "data m" h] assms(1) l
    by (simp add: aligned_def)
  then show ?thesis using ConvertDateColumns l
    by (simp add: convertDateColumns_def aligned_def)
next
  case GetVAParameters
  then show ?thesis using assms(1) by simp
qed

text \<open>
  The extractor's example: columns number, number (brush) and rows \<open>[1, 0]\<close>, \<open>[2, 5]\<close> give
  the selection list \<open>[{row: 1}]\<close>, the one column left and the rows \<open>[1]\<close>, \<open>[2]\<close>.
\<close>

lemma initializeSelections_example:
  "initializeSelections (Some exampleBrushMessage) exampleBrushHeap
     = (Some [\<lparr>row = 1\<rparr>],
        Some (mkMessage [mkColumn ''number'' None None] [0, 1]),
        heapOf [[CNum 1], [CNum 2]])"
proof -
  have h: "exampleBrushHeap 0 = [CNum 1, CNum 0]" "exampleBrushHeap (Suc 0) = [CNum 2, CNum 5]"
    by (simp_all add: exampleBrushHeap_def heapOf_def)
  have u: "exampleBrushHeap(0 := [CNum 1], Suc 0 := [CNum 2]) = heapOf [[CNum 1], [CNum 2]]"
    by (rule ext) (auto simp: exampleBrushHeap_def heapOf_def less_Suc_eq)
  show ?thesis
    by (simp add: initializeSelections_def exampleBrushMessage_def mkMessage_def mkColumn_def
        brushColumn_def brushColumnLoop.simps spliceAt_def nth_opt_def h u)
qed

text \<open>The invariant on the extractor's example, before and after the extraction.\<close>

theorem alignment_preserved_witness:
  "aligned exampleBrushMessage exampleBrushHeap
   \<and> distinct (data exampleBrushMessage)
   \<and> aligned (mkMessage [mkColumn ''number'' None None] [0, 1]) (heapOf [[CNum 1], [CNum 2]])
   \<and> stateAfter InitializeSelections exampleBrushMessage exampleBrushHeap
       = (mkMessage [mkColumn ''number'' None None] [0, 1], heapOf [[CNum 1], [CNum 2]])"
proof -
  have a: "aligned exampleBrushMessage exampleBrushHeap"
    by (simp add: aligned_def exampleBrushMessage_def exampleBrushHeap_def mkMessage_def
        heapOf_def)
  have d: "InitializeSelections = InitializeSelections \<longrightarrow> distinct (data exampleBrushMessage)"
    by (simp add: exampleBrushMessage_def mkMessage_def)
  show ?thesis
    using a d alignment_preserved [OF a d]
    by (simp add: initializeSelections_example)
qed

text \<open>
  Claim C7 as stated fails when one row array stands at two positions of \<open>data\<close>. With
  the columns number (brush), number and the shared row \<open>[0, 7]\<close> the message is aligned,
  two cells against two columns. \<open>initializeSelections\<close> removes the brush column and then
  splices the same array once for each position: it records \<open>{row: 1}\<close> (at the second
  visit the array starts with 7) and leaves one column against rows without cells.
\<close>

theorem alignment_shared_row_counterexample:
  "aligned sharedRowMessage sharedRowHeap
   \<and> initializeSelections (Some sharedRowMessage) sharedRowHeap
       = (Some [\<lparr>row = 1\<rparr>], Some (mkMessage [mkColumn ''number'' None None] [0, 0]),
          heapOf [[]])
   \<and> \<not> aligned (mkMessage [mkColumn ''number'' None None] [0, 0]) (heapOf [[]])"
proof -
  have h: "sharedRowHeap 0 = [CNum 0, CNum 7]"
    by (simp add: sharedRowHeap_def heapOf_def)
  have u: "sharedRowHeap(0 := []) = heapOf [[]]"
    by (rule ext) (simp add: sharedRowHeap_def heapOf_def)
  have a: "aligned sharedRowMessage sharedRowHeap"
    by (simp add: aligned_def sharedRowMessage_def sharedRowHeap_def mkMessage_def heapOf_def)
  have run: "initializeSelections (Some sharedRowMessage) sharedRowHeap
       = (Some [\<lparr>row = 1\<rparr>], Some (mkMessage [mkColumn ''number'' None None] [0, 0]),
          heapOf [[]])"
    by (simp add: initializeSelections_def sharedRowMessage_def mkMessage_def mkColumn_def
        brushColumn_def brushColumnLoop.simps spliceAt_def nth_opt_def h u)
  have n: "\<not> aligned (mkMessage [mkColumn ''number'' None None] [0, 0]) (heapOf [[]])"
    by (simp add: aligned_def mkMessage_def heapOf_def)
  show ?thesis using a run n by simp
qed

lemma noAdjacentBrush_tl: "noAdjacentBrush (x # cols) \<Longrightarrow> noAdjacentBrush cols"
  by (cases cols) simp_all

text \<open>
  When no two brush columns are neighbours, the column loop removes every brush column:
  a column is skipped only right after a removal.
\<close>

lemma brushColumnLoop_columns:
  "noAdjacentBrush (drop c columnsInfo) \<Longrightarrow>
   fst (brushColumnLoop c columnsInfo arrayData selections h)
     = take c columnsInfo @ filter (\<lambda>col. usage col \<noteq> Some ''brush'') (drop c columnsInfo)"
proof (induction c columnsInfo arrayData selections h rule: brushColumnLoop.induct)
  case (1 c columnsInfo arrayData selections h)
  show ?case
  proof (cases "c < length columnsInfo")
    case False
    then show ?thesis by (simp add: brushColumnLoop.simps [of c columnsInfo])
  next
    case lt: True
    then have d: "drop c columnsInfo = columnsInfo ! c # drop (Suc c) columnsInfo"
      by (simp add: Cons_nth_drop_Suc)
    have tk: "take (Suc c) columnsInfo = take c columnsInfo @ [columnsInfo ! c]"
      using lt by (simp add: take_Suc_conv_app_nth)
    show ?thesis
    proof (cases "usage (columnsInfo ! c) = Some ''brush''")
      case False
      have "noAdjacentBrush (drop (Suc c) columnsInfo)"
        using "1.prems" d noAdjacentBrush_tl by metis
      from "1.IH"(2) [OF lt False this] False lt show ?thesis
        by (simp add: brushColumnLoop.simps [of c columnsInfo] d tk)
    next
      case True
      define cols1 where "cols1 = spliceAt c 1 columnsInfo"
      obtain sels1 h1 where rl: "brushRowLoop c 0 arrayData selections h = (sels1, h1)"
        by (cases "brushRowLoop c 0 arrayData selections h")
      have step: "brushColumnLoop c columnsInfo arrayData selections h
                    = brushColumnLoop (Suc c) cols1 arrayData sels1 h1"
        using lt True rl by (simp add: brushColumnLoop.simps [of c columnsInfo] cols1_def)
      have cols: "cols1 = take c columnsInfo @ drop (Suc c) columnsInfo"
        by (simp add: cols1_def spliceAt_def)
      show ?thesis
      proof (cases "Suc c < length columnsInfo")
        case False
        then have e: "drop (Suc c) columnsInfo = []" by simp
        then have "\<not> Suc c < length cols1" using lt by (simp add: cols)
        then have "brushColumnLoop (Suc c) cols1 arrayData sels1 h1 = (cols1, sels1, h1)"
          by (simp add: brushColumnLoop.simps [of "Suc c" cols1])
        then show ?thesis using step True by (simp add: d e cols)
      next
        case lt2: True
        then have d2: "drop (Suc c) columnsInfo
                         = columnsInfo ! Suc c # drop (Suc (Suc c)) columnsInfo"
          by (simp add: Cons_nth_drop_Suc)
        have nb: "usage (columnsInfo ! Suc c) \<noteq> Some ''brush''"
          using "1.prems" True by (simp add: d d2)
        have na: "noAdjacentBrush (drop (Suc (Suc c)) columnsInfo)"
          using "1.prems" by (simp add: d d2) (metis noAdjacentBrush_tl)
        have dr: "drop (Suc c) cols1 = drop (Suc (Suc c)) columnsInfo"
          using lt by (simp add: cols d2)
        have tk2: "take (Suc c) cols1 = take c columnsInfo @ [columnsInfo ! Suc c]"
          using lt by (simp add: cols d2)
        from "1.IH"(1) [OF lt True cols1_def rl [symmetric] refl] na dr
        have "fst (brushColumnLoop (Suc c) cols1 arrayData sels1 h1)
                = take (Suc c) cols1 @
                  filter (\<lambda>col. usage col \<noteq> Some ''brush'') (drop (Suc c) cols1)"
          by simp
        then show ?thesis using step True nb by (simp add: d d2 dr tk2)
      qed
    qed
  qed
qed

lemma initializeSelections_removes_brush:
  assumes "noAdjacentBrush (columns m)"
    and "initializeSelections (Some m) h = (selections, Some m', h')"
  shows "columns m' = filter (\<lambda>col. usage col \<noteq> Some ''brush'') (columns m)"
proof -
  obtain cols sels h1
    where l: "brushColumnLoop 0 (columns m) (data m) [] h = (cols, sels, h1)"
    by (cases "brushColumnLoop 0 (columns m) (data m) [] h")
  from brushColumnLoop_columns [of 0 "columns m" "data m" "[]" h] assms(1) l
  have "cols = filter (\<lambda>col. usage col \<noteq> Some ''brush'') (columns m)" by simp
  then show ?thesis using assms(2) l by (auto simp: initializeSelections_def)
qed

text \<open>
  Claim C2 at a message with two adjacent brush columns and the row \<open>[1, 0]\<close>. After the
  first brush column is spliced out, the second one sits at index 0 while the loop moves
  on to index 1: it is never examined. One brush column remains, the row keeps one cell
  and a single selection entry is recorded.
\<close>

theorem initializeSelections_adjacent_brush:
  "initializeSelections (Some (mkMessage [brushColumn, brushColumn] [0])) (heapOf [[CNum 1, CNum 0]])
     = (Some [\<lparr>row = 0\<rparr>], Some (mkMessage [brushColumn] [0]), heapOf [[CNum 0]])"
proof -
  have h: "heapOf [[CNum 1, CNum 0]] 0 = [CNum 1, CNum 0]"
    by (simp add: heapOf_def)
  have u: "(heapOf [[CNum 1, CNum 0]])(0 := [CNum 0]) = heapOf [[CNum 0]]"
    by (rule ext) (simp add: heapOf_def)
  show ?thesis
    by (simp add: initializeSelections_def mkMessage_def mkColumn_def
        brushColumn_def brushColumnLoop.simps spliceAt_def nth_opt_def h u)
qed

section \<open>Properties of \<open>setupResizeListener\<close>\<close>

lemma onResize_tracked:
  assumes "tracked w"
  shows "onResize i w =
     w\<lparr>pending := [\<lparr>handle = nextHandle w, due = now w + 25, owner = i\<rparr>],
       nextHandle := Suc (nextHandle w), timeoutID := Some (nextHandle w)\<rparr>"
  using assms
  by (auto simp: tracked_def onResize_def clearTimeout_def setTimeout_def split: option.splits)

lemma tracked_onResize: "tracked w \<Longrightarrow> tracked (onResize i w)"
  by (simp add: onResize_tracked) (simp add: tracked_def)


lemma fold_onResize:
  "tracked w \<Longrightarrow>
   tracked (fold onResize ls w) \<and>
   now (fold onResize ls w) = now w \<and>
   invocations (fold onResize ls w) = invocations w \<and>
   resizeListeners (fold onResize ls w) = resizeListeners w \<and>
   resizeEndListeners (fold onResize ls w) = resizeEndListeners w \<and>
   (if ls = [] then pending (fold onResize ls w) = pending w
    else \<exists>h. pending (fold onResize ls w) = [\<lparr>handle = h, due = now w + 25, owner = last ls\<rparr>])"
proof (induction ls arbitrary: w)
  case Nil
  then show ?case by simp
next
  case (Cons i ls)
  have t: "tracked (onResize i w)" using Cons.prems by (rule tracked_onResize)
  have eq: "now (onResize i w) = now w" "invocations (onResize i w) = invocations w"
    "resizeListeners (onResize i w) = resizeListeners w"
    "resizeEndListeners (onResize i w) = resizeEndListeners w"
    "pending (onResize i w) = [\<lparr>handle = nextHandle w, due = now w + 25, owner = i\<rparr>]"
    using Cons.prems by (simp_all add: onResize_tracked)
  from Cons.IH [OF t] eq show ?case by (cases "ls = []") auto
qed

lemma advanceTo_idle:
  assumes "\<forall>tm \<in> set (pending w). t < due tm"
  shows "advanceTo t w = w\<lparr>now := max (now w) t\<rparr>"
proof -
  have "filter (\<lambda>tm. due tm \<le> t) (pending w) = []"
    using assms by (auto simp: filter_empty_conv)
  then show ?thesis by (simp add: advanceTo_def)
qed

lemma advanceTo_single:
  assumes "pending w = [tm]" and "due tm \<le> t" and "now w \<le> due tm"
  shows "advanceTo t w =
     w\<lparr>now := t, pending := [],
       invocations := invocations w @ map (\<lambda>callback. (due tm, callback)) (resizeEndListeners w)\<rparr>"
  using assms by (simp add: advanceTo_def fire_def dispatchResizeEnd_def max_def)

lemma tracked_now [simp]: "tracked (w\<lparr>now := t\<rparr>) = tracked w"
  by (simp add: tracked_def)

lemma resizeAt_step:
  assumes tr: "tracked w" and n: "now w \<le> t" and idle: "\<forall>tm \<in> set (pending w). t < due tm"
  shows "tracked (resizeAt t w) \<and>
   now (resizeAt t w) = t \<and>
   invocations (resizeAt t w) = invocations w \<and>
   resizeListeners (resizeAt t w) = resizeListeners w \<and>
   resizeEndListeners (resizeAt t w) = resizeEndListeners w \<and>
   (if resizeListeners w = [] then pending (resizeAt t w) = pending w
    else \<exists>h. pending (resizeAt t w) =
           [\<lparr>handle = h, due = t + 25, owner = last (resizeListeners w)\<rparr>])"
proof -
  let ?w = "w\<lparr>now := t\<rparr>"
  have m: "max (now w) t = t" using n by simp
  have a: "advanceTo t w = ?w" using advanceTo_idle [OF idle] m by simp
  have tr': "tracked ?w" using tr by simp
  from fold_onResize [OF tr', of "resizeListeners w"] show ?thesis
    by (cases "resizeListeners w = []") (simp_all add: resizeAt_def dispatchResize_def a)
qed

lemma burst_run:
  assumes "burst ts" and "tracked w" and "now w \<le> hd ts"
    and "\<forall>tm \<in> set (pending w). hd ts < due tm"
    and "resizeListeners w = [] \<longrightarrow> pending w = []"
  shows "tracked (fold resizeAt ts w) \<and>
   now (fold resizeAt ts w) = last ts \<and>
   invocations (fold resizeAt ts w) = invocations w \<and>
   resizeListeners (fold resizeAt ts w) = resizeListeners w \<and>
   resizeEndListeners (fold resizeAt ts w) = resizeEndListeners w \<and>
   (if resizeListeners w = [] then pending (fold resizeAt ts w) = pending w
    else \<exists>h. pending (fold resizeAt ts w) =
           [\<lparr>handle = h, due = last ts + 25, owner = last (resizeListeners w)\<rparr>])"
  using assms
proof (induction ts arbitrary: w rule: burst.induct)
  case 1
  then show ?case by simp
next
  case (2 t)
  from resizeAt_step [of w t] "2.prems" show ?case by simp
next
  case (3 t t' ts)
  let ?w = "resizeAt t w"
  from resizeAt_step [of w t] "3.prems"
  have st: "tracked ?w" "now ?w = t" "invocations ?w = invocations w"
    "resizeListeners ?w = resizeListeners w" "resizeEndListeners ?w = resizeEndListeners w"
    "if resizeListeners w = [] then pending ?w = pending w
     else \<exists>h. pending ?w = [\<lparr>handle = h, due = t + 25, owner = last (resizeListeners w)\<rparr>]"
    by simp_all
  from "3.prems" have b: "burst (t' # ts)" and le: "t \<le> t'" and lt: "t' < t + 25" by simp_all
  have n: "now ?w \<le> hd (t' # ts)" using st(2) le by simp
  have idle: "\<forall>tm \<in> set (pending ?w). hd (t' # ts) < due tm"
  proof (cases "resizeListeners w = []")
    case True
    then have "pending ?w = []" using st(6) "3.prems"(5) by simp
    then show ?thesis by simp
  next
    case False
    then obtain h where "pending ?w = [\<lparr>handle = h, due = t + 25, owner = last (resizeListeners w)\<rparr>]"
      using st(6) by auto
    then show ?thesis using lt by simp
  qed
  have nl: "resizeListeners ?w = [] \<longrightarrow> pending ?w = []"
    using st(4) st(6) "3.prems"(5) by auto
  from "3.IH" [OF b st(1) n idle nl] st show ?case
    by (cases "resizeListeners w = []") auto
qed


lemma quiet_tracked: "quiet w \<Longrightarrow> tracked w"
  by (simp add: quiet_def tracked_def)

lemma quiet_freshPage: "quiet freshPage"
  by (simp add: quiet_def freshPage_def)

lemma quiet_setupResizeListener: "quiet w \<Longrightarrow> quiet (setupResizeListener callback w)"
  by (simp add: quiet_def setupResizeListener_def)

text \<open>
  A page is quiet before the first call, stays quiet under \<open>setupResizeListener\<close>, and
  is quiet again once a burst has had its delivery: every burst that follows a settled
  one starts on a quiet page.
\<close>

lemma quiet_after_burst:
  assumes q: "quiet w" and b: "burst ts" and n: "now w \<le> hd ts" and T: "last ts + 25 \<le> T"
  shows "quiet (advanceTo T (fold resizeAt ts w))"
proof -
  let ?w = "fold resizeAt ts w"
  have p: "pending w = []" and l: "length (resizeListeners w) = length (resizeEndListeners w)"
    using q by (simp_all add: quiet_def)
  from burst_run [OF b quiet_tracked [OF q] n] p
  have run: "tracked ?w" "now ?w = last ts" "resizeListeners ?w = resizeListeners w"
    "resizeEndListeners ?w = resizeEndListeners w"
    "if resizeListeners w = [] then pending ?w = pending w
     else \<exists>h. pending ?w = [\<lparr>handle = h, due = last ts + 25, owner = last (resizeListeners w)\<rparr>]"
    by simp_all
  have h: "0 < nextHandle ?w" using run(1) by (simp add: tracked_def)
  show ?thesis
  proof (cases "resizeListeners w = []")
    case True
    then have "pending ?w = []" using run(5) p by simp
    then have "advanceTo T ?w = ?w\<lparr>now := max (now ?w) T\<rparr>"
      by (simp add: advanceTo_idle)
    then show ?thesis using \<open>pending ?w = []\<close> h l run(3) run(4) by (simp add: quiet_def)
  next
    case False
    then obtain h'
      where tm: "pending ?w = [\<lparr>handle = h', due = last ts + 25, owner = last (resizeListeners w)\<rparr>]"
      using run(5) by auto
    have "advanceTo T ?w =
       ?w\<lparr>now := T, pending := [],
         invocations := invocations ?w @
           map (\<lambda>callback. (due \<lparr>handle = h', due = last ts + 25, owner = last (resizeListeners w)\<rparr>,
             callback)) (resizeEndListeners ?w)\<rparr>"
      using T run(2) by (intro advanceTo_single [OF tm]) simp_all
    then show ?thesis using h l run(3) run(4) by (simp add: quiet_def)
  qed
qed

text \<open>
  Claim C6. On a quiet page, a burst of raw resize notifications, each arriving less
  than 25 time units after the one before, causes exactly one delivery of the settled
  event to every registered callback, at 25 time units after the last notification of
  the burst. No callback runs during the burst, at most one timer is pending at its end
  (every earlier one has been cancelled) and none is pending after the delivery.
\<close>

theorem resize_burst_one_delivery:
  assumes q: "quiet w" and b: "burst ts" and n: "now w \<le> hd ts" and T: "last ts + 25 \<le> T"
  shows "invocations (advanceTo T (fold resizeAt ts w))
           = invocations w @ map (\<lambda>callback. (last ts + 25, callback)) (resizeEndListeners w)
   \<and> invocations (fold resizeAt ts w) = invocations w
   \<and> length (pending (fold resizeAt ts w)) \<le> 1
   \<and> pending (advanceTo T (fold resizeAt ts w)) = []"
proof -
  let ?w = "fold resizeAt ts w"
  have p: "pending w = []" and l: "length (resizeListeners w) = length (resizeEndListeners w)"
    using q by (simp_all add: quiet_def)
  from burst_run [OF b quiet_tracked [OF q] n] p
  have run: "now ?w = last ts" "invocations ?w = invocations w"
    "resizeEndListeners ?w = resizeEndListeners w"
    "if resizeListeners w = [] then pending ?w = pending w
     else \<exists>h. pending ?w = [\<lparr>handle = h, due = last ts + 25, owner = last (resizeListeners w)\<rparr>]"
    by simp_all
  show ?thesis
  proof (cases "resizeListeners w = []")
    case True
    then have e: "pending ?w = []" using run(4) p by simp
    then have "advanceTo T ?w = ?w\<lparr>now := max (now ?w) T\<rparr>"
      by (simp add: advanceTo_idle)
    moreover have "resizeEndListeners w = []" using True l by simp
    ultimately show ?thesis using e run(2) by simp
  next
    case False
    then obtain h
      where tm: "pending ?w = [\<lparr>handle = h, due = last ts + 25, owner = last (resizeListeners w)\<rparr>]"
      using run(4) by auto
    have "advanceTo T ?w =
       ?w\<lparr>now := T, pending := [],
         invocations := invocations ?w @
           map (\<lambda>callback. (due \<lparr>handle = h, due = last ts + 25, owner = last (resizeListeners w)\<rparr>,
             callback)) (resizeEndListeners ?w)\<rparr>"
      using T run(1) by (intro advanceTo_single [OF tm]) simp_all
    then show ?thesis using tm run(2) run(3) by simp
  qed
qed

text \<open>
  Two registered callbacks and notifications at times 0, 10 and 30: both callbacks are
  called once, at time 55.
\<close>

lemma run_twoCalls:
  "fold resizeAt [0, 10, 30] twoCalls =
     \<lparr>timeoutID = Some 6, now = 30, nextHandle = 7,
      pending = [\<lparr>handle = 6, due = 55, owner = 1\<rparr>], resizeListeners = [0, 1],
      resizeEndListeners = [''redrawA'', ''redrawB''], invocations = []\<rparr>"
  by (simp add: twoCalls_def setupResizeListener_def freshPage_def resizeAt_def advanceTo_def
      dispatchResize_def onResize_def clearTimeout_def setTimeout_def fire_def
      dispatchResizeEnd_def)

theorem resize_burst_one_delivery_witness:
  "quiet twoCalls \<and> burst [0, 10, 30]
   \<and> invocations (advanceTo 60 (fold resizeAt [0, 10, 30] twoCalls))
       = [(55, ''redrawA''), (55, ''redrawB'')]
   \<and> pending (fold resizeAt [0, 10, 30] twoCalls) = [\<lparr>handle = 6, due = 55, owner = 1\<rparr>]
   \<and> pending (advanceTo 60 (fold resizeAt [0, 10, 30] twoCalls)) = []"
proof -
  have q: "quiet twoCalls"
    by (simp add: quiet_def twoCalls_def setupResizeListener_def freshPage_def)
  have b: "burst [0, 10, 30]" by simp
  have n: "now twoCalls \<le> hd [0, 10, 30]"
    by (simp add: twoCalls_def setupResizeListener_def freshPage_def)
  have T: "last [0, 10, 30] + 25 \<le> (60::nat)" by simp
  have l: "resizeEndListeners twoCalls = [''redrawA'', ''redrawB'']" "invocations twoCalls = []"
    by (simp_all add: twoCalls_def setupResizeListener_def freshPage_def)
  have p: "pending (fold resizeAt [0, 10, 30] twoCalls) = [\<lparr>handle = 6, due = 55, owner = 1\<rparr>]"
    by (subst run_twoCalls) simp
  show ?thesis
    using q b resize_burst_one_delivery [OF q b n T] l p
    by simp
qed

text \<open>
  Claim C4, as amended. The calls of \<open>setupResizeListener\<close> share the one module-level
  handle \<open>_timeoutID\<close>: a call creates no timer state of its own (it leaves \<open>_timeoutID\<close>
  and the pending timers as they are), and the \<open>resize\<close> listener registered by any call
  \<open>i\<close> cancels the pending timer whose handle \<open>_timeoutID\<close> holds, whichever call's listener
  scheduled it.
\<close>

theorem timeoutID_shared:
  "timeoutID (setupResizeListener callback w) = timeoutID w
   \<and> pending (setupResizeListener callback w) = pending w
   \<and> (timeoutID w = Some h \<and> h \<noteq> 0 \<and> h < nextHandle w
        \<longrightarrow> filter (\<lambda>tm. handle tm = h) (pending (onResize i w)) = [])"
  by (auto simp: setupResizeListener_def onResize_def clearTimeout_def setTimeout_def
      filter_empty_conv)

text \<open>
  After two calls, the first call's listener schedules timer 1; the second call's
  listener then finds its handle in \<open>_timeoutID\<close> and no timer with handle 1 is left.
\<close>

theorem timeoutID_shared_witness:
  "timeoutID (onResize 0 twoCalls) = Some 1
   \<and> pending (onResize 0 twoCalls) = [\<lparr>handle = 1, due = 25, owner = 0\<rparr>]
   \<and> filter (\<lambda>tm. handle tm = 1) (pending (onResize 1 (onResize 0 twoCalls))) = []"
proof -
  have a: "timeoutID (onResize 0 twoCalls) = Some 1 \<and> (1::nat) \<noteq> 0
      \<and> 1 < nextHandle (onResize 0 twoCalls)"
    by (simp add: twoCalls_def setupResizeListener_def freshPage_def onResize_def
        setTimeout_def)
  have p: "pending (onResize 0 twoCalls) = [\<lparr>handle = 1, due = 25, owner = 0\<rparr>]"
    by (simp add: twoCalls_def setupResizeListener_def freshPage_def onResize_def
        setTimeout_def)
  show ?thesis
    using a p timeoutID_shared [of "''x''" "onResize 0 twoCalls" 1 1] by blast
qed

text \<open>
  Claim C4 as stated fails. After two calls of \<open>setupResizeListener\<close>, one raw resize
  notification runs both \<open>resize\<close> listeners: the first call's listener schedules timer
  1, and the second call's listener cancels it (it never fires) and schedules timer 2 in
  its place.
\<close>

theorem independent_timers_counterexample:
  "resizeListeners twoCalls = [0, 1]
   \<and> pending (onResize 0 twoCalls) = [\<lparr>handle = 1, due = 25, owner = 0\<rparr>]
   \<and> pending (onResize 1 (onResize 0 twoCalls)) = [\<lparr>handle = 2, due = 25, owner = 1\<rparr>]
   \<and> invocations (onResize 1 (onResize 0 twoCalls)) = []
   \<and> resizeAt 0 twoCalls = onResize 1 (onResize 0 twoCalls)"
  by (simp add: twoCalls_def setupResizeListener_def freshPage_def resizeAt_def advanceTo_def
      dispatchResize_def onResize_def clearTimeout_def setTimeout_def)

end
